theory Spec2Isabelle
  imports Main "HOL-Library.AList"
begin

section \<open>The trigger engine of the card: \<open>TriggersManager\<close>\<close>

text \<open>
  The class \<open>TriggersManager\<close> keeps two maps, \<open>_triggeredCameras\<close> (camera to the date of
  its last trigger) and \<open>_triggeredCameraTimers\<close> (camera to a \<open>Timer\<close> object), and one
  throttled wrapper around \<open>_triggerAction\<close>. Everything else it reaches through the
  \<open>CardTriggersAPI\<close> object. The model below threads one record, the world, through every
  method: the two maps, the state of the throttled wrapper, the timeouts that the runtime
  holds, the \<open>triggered\<close> entry of the condition state, the clock, and the list of the
  commands sent to the collaborators so far. The values that the methods only read from
  the collaborators are the fields of a second record, read anew at every call.
  Names follow the source without the leading underscore.
\<close>

subsection \<open>Data\<close>

text \<open>
  \<open>CameraEvent\<close> is declared in \<open>camera-manager/types\<close>. The engine reads five fields. The
  optional booleans \<open>snapshot\<close> and \<open>clip\<close> are only tested for truthiness, so an absent
  flag is \<open>False\<close>.
\<close>

datatype CameraEventType = New | Update | End

datatype Fidelity = High | Low

record CameraEvent =
  cameraID :: string
  type :: CameraEventType
  fidelity :: Fidelity
  snapshot :: bool
  clip :: bool

text \<open>
  Modelled from the spec: the trigger policy, whose declaration (the configuration schema)
  is not among the sources. Its fields and their enumerations are the ones of the data
  model: \<open>filter_selected_camera\<close>, \<open>untrigger_seconds\<close>, \<open>actions.trigger\<close>,
  \<open>actions.untrigger\<close>, \<open>actions.interaction_mode\<close>. The duration is a whole number of
  seconds. Of the rest of the configuration only \<open>view.default\<close>, the name of the default
  view, is read.
\<close>

datatype TriggerAction = TriggerDefault | TriggerLive | TriggerMedia | TriggerNone

datatype UntriggerAction = UntriggerDefault | UntriggerNone

datatype InteractionMode = ModeAll | ModeActive | ModeInactive

record TriggersActions =
  trigger :: TriggerAction
  untrigger :: UntriggerAction
  interaction_mode :: InteractionMode

record TriggersConfig =
  filter_selected_camera :: bool
  untrigger_seconds :: nat
  actions :: TriggersActions

record ViewConfig =
  view_default :: string
  view_triggers :: TriggersConfig

text \<open>
  What the engine reads through \<open>CardTriggersAPI\<close>: \<open>getConfig()?.view\<close>, the camera of
  \<open>getView()\<close>, \<open>getAllDependentCameras\<close> of the camera store, and \<open>hasInteraction()\<close>.
\<close>

record CardTriggersAPI =
  getConfig_view :: "ViewConfig option"
  getView_camera :: "string option"
  getAllDependentCameras :: "string \<Rightarrow> string set"
  hasInteraction :: bool

text \<open>
  The commands the engine sends: the two navigation commands of the view manager,
  \<open>setState\<close> of the conditions manager with the \<open>triggered\<close> entry, and \<open>update\<close> of the
  card element manager. \<open>setViewDefault\<close> carries its camera argument when it has one.
\<close>

datatype Command =
    SetViewByParameters string string
  | SetViewDefault "string option"
  | SetState "string set option"
  | CardUpdate

text \<open>
  The state of the function that \<open>throttle\<close> of lodash returns. \<open>throttle(func, wait,
  options)\<close> is \<open>debounce(func, wait, {leading, maxWait: wait, trailing})\<close> where
  \<open>leading\<close> and \<open>trailing\<close> are both true unless the options say otherwise; line 15 of
  the source passes \<open>trailing: true\<close> only. The closure of \<open>debounce\<close> holds \<open>lastArgs\<close>,
  \<open>lastCallTime\<close>, \<open>lastInvokeTime\<close> (initially 0) and \<open>timerId\<close>; the model keeps, for
  \<open>timerId\<close>, the time at which the pending timeout is due.
\<close>

record Throttle =
  lastArgs :: "CameraEvent option"
  lastCallTime :: "int option"
  lastInvokeTime :: int
  timerId :: "int option"

text \<open>
  The world. Times are milliseconds. \<open>triggeredCameras\<close> and \<open>triggeredCameraTimers\<close> are
  JavaScript maps, which iterate in insertion order: association lists, written with
  \<open>AList.update\<close> (replace in place, or append) and \<open>AList.delete\<close>. A \<open>Timer\<close> object is
  its identity, a number; \<open>nextTimer\<close> is the next unused one. \<open>timeouts\<close> are the running
  timers as the runtime holds them: timer, due time, and the camera that the callback
  of line 158 closes over.
\<close>

record World =
  now :: int
  triggeredCameras :: "(string \<times> int) list"
  triggeredCameraTimers :: "(string \<times> nat) list"
  nextTimer :: nat
  timeouts :: "(nat \<times> int \<times> string) list"
  throttled :: Throttle
  triggered :: "string set option"
  commands :: "Command list"

definition initial :: "int \<Rightarrow> World" where
  "initial t =
     \<lparr> now = t, triggeredCameras = [], triggeredCameraTimers = [], nextTimer = 0,
       timeouts = [],
       throttled = \<lparr> lastArgs = None, lastCallTime = None, lastInvokeTime = 0,
                     timerId = None \<rparr>,
       triggered = None, commands = [] \<rparr>"

subsection \<open>Queries\<close>

definition getTriggeredCameraIDs :: "World \<Rightarrow> string set" where
  "getTriggeredCameraIDs w = set (map fst (triggeredCameras w))"

definition isTriggered :: "World \<Rightarrow> bool" where
  "isTriggered w = (length (triggeredCameras w) \<noteq> 0)"

text \<open>
  \<open>orderBy(entries, getTime, 'desc')\<close> of lodash is a stable sort: entries with equal
  keys keep their order. Here it is the stable insertion sort of the library on the
  negated key.
\<close>

definition orderBy_desc :: "('a \<Rightarrow> int) \<Rightarrow> 'a list \<Rightarrow> 'a list" where
  "orderBy_desc f xs = sort_key (\<lambda>x. - f x) xs"

definition getMostRecentlyTriggeredCameraID :: "World \<Rightarrow> string option" where
  "getMostRecentlyTriggeredCameraID w =
     (let sorted = orderBy_desc snd (triggeredCameras w)
      in if length sorted \<noteq> 0 then Some (fst (hd sorted)) else None)"

subsection \<open>Timers\<close>

text \<open>
  Modelled from the spec: the class \<open>Timer\<close> of \<open>utils/timer\<close>, a single-shot cancellable
  timer handle. \<open>stop\<close> cancels the pending timeout of the timer, if any; \<open>start\<close> stops
  the timer and then has the callback run once, after the given number of seconds.
\<close>

definition Timer_stop :: "nat \<Rightarrow> World \<Rightarrow> World" where
  "Timer_stop t w = w\<lparr>timeouts := AList.delete t (timeouts w)\<rparr>"

definition Timer_start :: "nat \<Rightarrow> nat \<Rightarrow> string \<Rightarrow> World \<Rightarrow> World" where
  "Timer_start t seconds c w =
     (let w1 = Timer_stop t w
      in w1\<lparr>timeouts := timeouts w1 @ [(t, now w1 + int seconds * 1000, c)]\<rparr>)"

definition deleteTimer :: "string \<Rightarrow> World \<Rightarrow> World" where
  "deleteTimer c w =
     (let w1 = (case map_of (triggeredCameraTimers w) c of
                  None \<Rightarrow> w
                | Some t \<Rightarrow> Timer_stop t w)
      in w1\<lparr>triggeredCameraTimers := AList.delete c (triggeredCameraTimers w1)\<rparr>)"

subsection \<open>Actions\<close>

definition hasAllowableInteractionStateForAction :: "CardTriggersAPI \<Rightarrow> bool" where
  "hasAllowableInteractionStateForAction api =
     (case getConfig_view api of
        None \<Rightarrow> False
      | Some v \<Rightarrow>
          (let mode = interaction_mode (actions (view_triggers v))
           in mode = ModeAll
              \<or> (mode = ModeActive \<and> hasInteraction api)
              \<or> (mode = ModeInactive \<and> \<not> hasInteraction api)))"

definition send :: "Command \<Rightarrow> World \<Rightarrow> World" where
  "send c w = w\<lparr>commands := commands w @ [c]\<rparr>"

text \<open>
  Modelled from the spec: the condition-state store, whose class is not among the sources:
  a write of the triggered set (or its clearing) replaces the published one.
\<close>

definition setState_triggered :: "string set option \<Rightarrow> World \<Rightarrow> World" where
  "setState_triggered st w = send (SetState st) (w\<lparr>triggered := st\<rparr>)"

definition triggeredState :: "World \<Rightarrow> string set option" where
  "triggeredState w =
     (let triggeredCameraIDs = set (map fst (triggeredCameras w))
      in if card triggeredCameraIDs \<noteq> 0 then Some triggeredCameraIDs else None)"

definition setConditionStateIfNecessary :: "World \<Rightarrow> World" where
  "setConditionStateIfNecessary w =
     (if triggeredState w \<noteq> triggered w
      then setState_triggered (triggeredState w) w
      else w)"

text \<open>
  The optional chains on the configuration: \<open>getConfig()?.view.triggers.actions.trigger\<close>,
  \<open>getConfig()?.view.default\<close> and \<open>getConfig()?.view.triggers.actions.untrigger\<close>, undefined
  when there is no configuration, and \<open>getConfig()?.view.triggers.untrigger_seconds ?? 0\<close>.
\<close>

definition configuredTrigger :: "CardTriggersAPI \<Rightarrow> TriggerAction option" where
  "configuredTrigger api =
     map_option (\<lambda>v. trigger (actions (view_triggers v))) (getConfig_view api)"

definition configuredDefault :: "CardTriggersAPI \<Rightarrow> string option" where
  "configuredDefault api = map_option view_default (getConfig_view api)"

definition configuredUntrigger :: "CardTriggersAPI \<Rightarrow> UntriggerAction option" where
  "configuredUntrigger api =
     map_option (\<lambda>v. untrigger (actions (view_triggers v))) (getConfig_view api)"

definition configuredUntriggerSeconds :: "CardTriggersAPI \<Rightarrow> nat" where
  "configuredUntriggerSeconds api =
     (case getConfig_view api of
        None \<Rightarrow> 0
      | Some v \<Rightarrow> untrigger_seconds (view_triggers v))"

definition triggerAction :: "CardTriggersAPI \<Rightarrow> CameraEvent \<Rightarrow> World \<Rightarrow> World" where
  "triggerAction api ev w =
     (let triggerAction = configuredTrigger api;
          defaultView = configuredDefault api
      in if fidelity ev = High \<and> \<not> snapshot ev \<and> \<not> clip ev
            \<and> \<not> (triggerAction = Some TriggerLive
                   \<or> (triggerAction = Some TriggerDefault \<and> defaultView = Some ''live''))
         then w
         else
           send CardUpdate
             (if hasAllowableInteractionStateForAction api
              then (if triggerAction = Some TriggerLive
                    then send (SetViewByParameters ''live'' (cameraID ev)) w
                    else if triggerAction = Some TriggerDefault
                    then send (SetViewDefault (Some (cameraID ev))) w
                    else if fidelity ev = High \<and> triggerAction = Some TriggerMedia
                    then send (SetViewByParameters
                                 (if clip ev then ''clip'' else ''snapshot'') (cameraID ev)) w
                    else w)
              else w))"

definition untriggerAction :: "CardTriggersAPI \<Rightarrow> string \<Rightarrow> World \<Rightarrow> World" where
  "untriggerAction api c w =
     (let action = configuredUntrigger api;
          w1 = (if action = Some UntriggerDefault \<and> hasAllowableInteractionStateForAction api
                then send (SetViewDefault None) w
                else w);
          w2 = w1\<lparr>triggeredCameras := AList.delete c (triggeredCameras w1)\<rparr>;
          w3 = deleteTimer c w2;
          w4 = setConditionStateIfNecessary w3
      in send CardUpdate w4)"

definition startUntriggerTimer :: "CardTriggersAPI \<Rightarrow> string \<Rightarrow> World \<Rightarrow> World" where
  "startUntriggerTimer api c w =
     (let w1 = deleteTimer c w;
          timer = nextTimer w1;
          w2 = w1\<lparr>nextTimer := Suc timer,
                  triggeredCameraTimers := AList.update c timer (triggeredCameraTimers w1)\<rparr>
      in Timer_start timer (configuredUntriggerSeconds api) c w2)"

subsection \<open>The throttled trigger action\<close>

definition wait :: int where
  "wait = 1000"

definition shouldInvoke :: "int \<Rightarrow> Throttle \<Rightarrow> bool" where
  "shouldInvoke time th =
     (case lastCallTime th of
        None \<Rightarrow> True
      | Some lc \<Rightarrow>
          time - lc \<ge> wait \<or> time - lc < 0 \<or> time - lastInvokeTime th \<ge> wait)"

text \<open>
  \<open>remainingWait\<close> is only called when \<open>shouldInvoke\<close> is false, hence with
  \<open>lastCallTime\<close> set; without it the difference is not a number and the timeout that
  is then set has delay 0.
\<close>

definition remainingWait :: "int \<Rightarrow> Throttle \<Rightarrow> int" where
  "remainingWait time th =
     (case lastCallTime th of
        None \<Rightarrow> 0
      | Some lc \<Rightarrow> min (wait - (time - lc)) (wait - (time - lastInvokeTime th)))"

text \<open>
  \<open>invokeFunc\<close> takes \<open>lastArgs\<close>, clears it, records the time and calls the function,
  here \<open>_triggerAction\<close>. Its callers have \<open>lastArgs\<close> set.
\<close>

definition invokeFunc :: "CardTriggersAPI \<Rightarrow> int \<Rightarrow> World \<Rightarrow> World" where
  "invokeFunc api time w =
     (let args = lastArgs (throttled w);
          w1 = w\<lparr>throttled := (throttled w)\<lparr>lastArgs := None, lastInvokeTime := time\<rparr>\<rparr>
      in case args of
           None \<Rightarrow> w1
         | Some ev \<Rightarrow> triggerAction api ev w1)"

definition leadingEdge :: "CardTriggersAPI \<Rightarrow> int \<Rightarrow> World \<Rightarrow> World" where
  "leadingEdge api time w =
     invokeFunc api time
       (w\<lparr>throttled := (throttled w)\<lparr>lastInvokeTime := time, timerId := Some (time + wait)\<rparr>\<rparr>)"

definition trailingEdge :: "CardTriggersAPI \<Rightarrow> int \<Rightarrow> World \<Rightarrow> World" where
  "trailingEdge api time w =
     (let w1 = w\<lparr>throttled := (throttled w)\<lparr>timerId := None\<rparr>\<rparr>
      in if lastArgs (throttled w1) \<noteq> None
         then invokeFunc api time w1
         else w1\<lparr>throttled := (throttled w1)\<lparr>lastArgs := None\<rparr>\<rparr>)"

definition timerExpired :: "CardTriggersAPI \<Rightarrow> World \<Rightarrow> World" where
  "timerExpired api w =
     (let time = now w
      in if shouldInvoke time (throttled w)
         then trailingEdge api time w
         else w\<lparr>throttled :=
                 (throttled w)\<lparr>timerId := Some (time + max 0 (remainingWait time (throttled w)))\<rparr>\<rparr>)"

definition throttledTriggerAction :: "CardTriggersAPI \<Rightarrow> CameraEvent \<Rightarrow> World \<Rightarrow> World" where
  "throttledTriggerAction api ev w =
     (let time = now w;
          isInvoking = shouldInvoke time (throttled w);
          w1 = w\<lparr>throttled := (throttled w)\<lparr>lastArgs := Some ev, lastCallTime := Some time\<rparr>\<rparr>
      in if isInvoking
         then (if timerId (throttled w1) = None
               then leadingEdge api time w1
               else invokeFunc api time
                      (w1\<lparr>throttled := (throttled w1)\<lparr>timerId := Some (time + wait)\<rparr>\<rparr>))
         else (if timerId (throttled w1) = None
               then w1\<lparr>throttled := (throttled w1)\<lparr>timerId := Some (time + wait)\<rparr>\<rparr>
               else w1))"

subsection \<open>The entry point\<close>

definition handleCameraEvent :: "CardTriggersAPI \<Rightarrow> CameraEvent \<Rightarrow> World \<Rightarrow> World" where
  "handleCameraEvent api ev w =
     (case getConfig_view api of
        None \<Rightarrow> w
      | Some v \<Rightarrow>
          (case getView_camera api of
             None \<Rightarrow> w
           | Some selectedCameraID \<Rightarrow>
               if selectedCameraID = [] then w
               else
                 (let triggersConfig = view_triggers v;
                      dependentCameraIDs = getAllDependentCameras api selectedCameraID
                  in if filter_selected_camera triggersConfig
                        \<and> cameraID ev \<notin> dependentCameraIDs
                     then w
                     else if type ev = End
                     then startUntriggerTimer api (cameraID ev) w
                     else
                       throttledTriggerAction api ev
                         (setConditionStateIfNecessary
                            (w\<lparr>triggeredCameras :=
                                 AList.update (cameraID ev) (now w) (triggeredCameras w)\<rparr>)))))"

subsection \<open>The runtime\<close>

text \<open>
  One step of the single-threaded runtime: an event is delivered; time passes; a running
  timer that is due fires, which clears the timer's handle and runs \<open>_untriggerAction\<close> for
  its camera; the timeout of the throttled wrapper, due, runs \<open>timerExpired\<close>. A timeout
  never runs before it is due.
\<close>

definition fireTimer :: "CardTriggersAPI \<Rightarrow> nat \<Rightarrow> string \<Rightarrow> World \<Rightarrow> World" where
  "fireTimer api t c w = untriggerAction api c (Timer_stop t w)"

definition elapse :: "int \<Rightarrow> World \<Rightarrow> World" where
  "elapse d w = w\<lparr>now := now w + d\<rparr>"

inductive step :: "World \<Rightarrow> World \<Rightarrow> bool" where
  event: "step w (handleCameraEvent api ev w)"
| time: "0 \<le> d \<Longrightarrow> step w (elapse d w)"
| timer: "(t, due, c) \<in> set (timeouts w) \<Longrightarrow> due \<le> now w \<Longrightarrow> step w (fireTimer api t c w)"
| throttle: "timerId (throttled w) = Some due \<Longrightarrow> due \<le> now w \<Longrightarrow> step w (timerExpired api w)"

inductive reachable :: "World \<Rightarrow> bool" where
  boot: "reachable (initial t)"
| after: "reachable w \<Longrightarrow> step w w' \<Longrightarrow> reachable w'"

section \<open>Notions used in the statements\<close>

text \<open>
  The writes to the condition state among the commands sent, and the part of the world that
  the throttled wrapper and the trigger action leave alone.
\<close>

fun isSetState :: "Command \<Rightarrow> bool" where
  "isSetState (SetState st) = True"
| "isSetState c = False"

definition stateWrites :: "World \<Rightarrow> Command list" where
  "stateWrites w = filter isSetState (commands w)"

definition engine :: "World \<Rightarrow> int \<times> (string \<times> int) list \<times> (string \<times> nat) list \<times> nat
    \<times> (nat \<times> int \<times> string) list \<times> string set option \<times> Command list" where
  "engine w = (now w, triggeredCameras w, triggeredCameraTimers w, nextTimer w, timeouts w,
               triggered w, stateWrites w)"

text \<open>The three guards at the top of \<open>handleCameraEvent\<close> (lines 43 and 52), as one predicate.\<close>

definition discarded :: "CardTriggersAPI \<Rightarrow> CameraEvent \<Rightarrow> bool" where
  "discarded api ev =
     (case getConfig_view api of
        None \<Rightarrow> True
      | Some v \<Rightarrow>
          (case getView_camera api of
             None \<Rightarrow> True
           | Some sel \<Rightarrow>
               sel = [] \<or> (filter_selected_camera (view_triggers v)
                           \<and> cameraID ev \<notin> getAllDependentCameras api sel)))"

text \<open>
  The condition of line 86 under which \<open>_triggerAction\<close> returns at once: a high-fidelity
  event without snapshot and without clip, when the configured action is not a change to
  the live view.
\<close>

definition suppressed :: "CardTriggersAPI \<Rightarrow> CameraEvent \<Rightarrow> bool" where
  "suppressed api ev =
     (fidelity ev = High \<and> \<not> snapshot ev \<and> \<not> clip ev
      \<and> configuredTrigger api \<noteq> Some TriggerLive
      \<and> \<not> (configuredTrigger api = Some TriggerDefault \<and> configuredDefault api = Some ''live''))"

text \<open>
  A command that is not a navigation away from the live view: a change to the view named
  \<open>live\<close>, a change to the default view when that is \<open>live\<close>, or no navigation at all.
\<close>

fun isLiveNavigation :: "CardTriggersAPI \<Rightarrow> Command \<Rightarrow> bool" where
  "isLiveNavigation api (SetViewByParameters v c) = (v = ''live'')"
| "isLiveNavigation api (SetViewDefault c) = (configuredDefault api = Some ''live'')"
| "isLiveNavigation api (SetState st) = True"
| "isLiveNavigation api CardUpdate = True"

text \<open>
  A sequence of calls of the throttled wrapper, each after a delay and each with its own
  reading of the collaborators.
\<close>

fun calls :: "(int \<times> CardTriggersAPI \<times> CameraEvent) list \<Rightarrow> World \<Rightarrow> World" where
  "calls [] w = w"
| "calls ((d, api, ev) # cs) w = calls cs (throttledTriggerAction api ev (elapse d w))"

text \<open>
  The window that the wrapper opened at \<open>t0\<close> by a leading-edge execution is open: its
  timeout is pending, due at \<open>t0 + wait\<close>, which the clock has not reached, the last
  execution was at \<open>t0\<close>, and the last call was within the window.
\<close>

definition windowOpen :: "int \<Rightarrow> World \<Rightarrow> bool" where
  "windowOpen t0 w \<longleftrightarrow>
     timerId (throttled w) = Some (t0 + wait)
     \<and> lastInvokeTime (throttled w) = t0
     \<and> (case lastCallTime (throttled w) of None \<Rightarrow> False | Some lc \<Rightarrow> t0 \<le> lc \<and> lc \<le> now w)
     \<and> now w < t0 + wait"

text \<open>The published state agrees with the triggered cameras.\<close>

definition published :: "World \<Rightarrow> bool" where
  "published w = (triggered w = triggeredState w)"

text \<open>
  The timers are in order when the running timers have distinct identities and distinct
  cameras, are exactly the ones registered in \<open>_triggeredCameraTimers\<close>, and are older than
  the next timer object.
\<close>

definition timerOf :: "nat \<times> int \<times> string \<Rightarrow> nat" where
  "timerOf e = fst e"

definition cameraOf :: "nat \<times> int \<times> string \<Rightarrow> string" where
  "cameraOf e = snd (snd e)"

definition timersOK :: "World \<Rightarrow> bool" where
  "timersOK w \<longleftrightarrow>
     distinct (map timerOf (timeouts w))
     \<and> distinct (map cameraOf (timeouts w))
     \<and> map (\<lambda>e. (cameraOf e, timerOf e)) (timeouts w) = triggeredCameraTimers w
     \<and> list_all (\<lambda>e. timerOf e < nextTimer w) (timeouts w)"

text \<open>Concrete inputs: a configuration, the collaborators, an event.\<close>

definition exampleView :: "string \<Rightarrow> TriggerAction \<Rightarrow> InteractionMode \<Rightarrow> ViewConfig" where
  "exampleView dv a m =
     \<lparr> view_default = dv,
       view_triggers =
         \<lparr> filter_selected_camera = True, untrigger_seconds = 10,
           actions = \<lparr> trigger = a, untrigger = UntriggerDefault, interaction_mode = m \<rparr> \<rparr> \<rparr>"

definition exampleAPI :: "string \<Rightarrow> TriggerAction \<Rightarrow> InteractionMode \<Rightarrow> CardTriggersAPI" where
  "exampleAPI dv a m =
     \<lparr> getConfig_view = Some (exampleView dv a m),
       getView_camera = Some ''A'',
       getAllDependentCameras = (\<lambda>c. if c = ''A'' then {''A'', ''B''} else {}),
       hasInteraction = False \<rparr>"

definition exampleEvent ::
  "string \<Rightarrow> CameraEventType \<Rightarrow> Fidelity \<Rightarrow> bool \<Rightarrow> bool \<Rightarrow> CameraEvent" where
  "exampleEvent c t f s k =
     \<lparr> cameraID = c, type = t, fidelity = f, snapshot = s, clip = k \<rparr>"

definition examplePolicy :: CardTriggersAPI where
  "examplePolicy = exampleAPI ''clips'' TriggerLive ModeAll"

definition exampleStart :: CameraEvent where
  "exampleStart = exampleEvent ''A'' New High True True"

definition exampleEnd :: CameraEvent where
  "exampleEnd = exampleEvent ''A'' End High True True"

text \<open>
  A run of the engine under that policy (untrigger after 10 seconds): camera A is triggered at
  time 0; the timeout of the throttled wrapper fires at 1000; the end event arrives at 1000
  and arms the timer of A, due at 11000.
\<close>

definition triggeredWorld :: World where
  "triggeredWorld = handleCameraEvent examplePolicy exampleStart (initial 0)"

definition settledWorld :: World where
  "settledWorld = timerExpired examplePolicy (elapse 1000 triggeredWorld)"

definition endedWorld :: World where
  "endedWorld = handleCameraEvent examplePolicy exampleEnd settledWorld"

text \<open>Nothing else happens and the timer fires at 11000.\<close>

definition untriggeredWorld :: World where
  "untriggeredWorld = fireTimer examplePolicy 0 ''A'' (elapse 10000 endedWorld)"

text \<open>
  Or else: a start event for A arrives at 5000, the timeout of the throttled wrapper fires at
  6000, and the timer of A fires at 11000.
\<close>

definition retriggeredWorld :: World where
  "retriggeredWorld = handleCameraEvent examplePolicy exampleStart (elapse 4000 endedWorld)"

definition resettledWorld :: World where
  "resettledWorld = timerExpired examplePolicy (elapse 1000 retriggeredWorld)"

definition staleWorld :: World where
  "staleWorld = fireTimer examplePolicy 0 ''A'' (elapse 5000 resettledWorld)"

text \<open>Three triggered cameras, two of them with the latest timestamp.\<close>

definition exampleCameras :: World where
  "exampleCameras = (initial 0)\<lparr>triggeredCameras := [(''A'', 5), (''B'', 9), (''C'', 9)]\<rparr>"

text \<open>
  A second run: 100 milliseconds after the start event for A, a start event for camera B; the
  timeout of the throttled wrapper fires at 1000.
\<close>

definition exampleStartB :: CameraEvent where
  "exampleStartB = exampleEvent ''B'' New High True True"

definition secondWorld :: World where
  "secondWorld = handleCameraEvent examplePolicy exampleStartB (elapse 100 triggeredWorld)"

definition closedWorld :: World where
  "closedWorld = timerExpired examplePolicy (elapse 900 secondWorld)"

section \<open>Lemmas\<close>

lemmas example_defs = exampleView_def exampleAPI_def exampleEvent_def

lemmas config_defs =
  configuredTrigger_def configuredDefault_def configuredUntrigger_def
  configuredUntriggerSeconds_def

subsection \<open>What each method does to each field\<close>

lemma set_delete: "set (AList.delete k xs) = {p \<in> set xs. fst p \<noteq> k}"
  by (auto simp: AList.delete_eq)

lemma update_fresh: "k \<notin> fst ` set al \<Longrightarrow> AList.update k v al = al @ [(k, v)]"
  by (induction al) auto

lemma update_after_delete: "AList.update k v (AList.delete k al) = AList.delete k al @ [(k, v)]"
  by (simp add: update_fresh AList.delete_notin_dom)

lemma triggeredState_eq:
  "triggeredState w =
     (if triggeredCameras w = [] then None else Some (fst ` set (triggeredCameras w)))"
  by (simp add: triggeredState_def)

lemma send_fields [simp]:
  "now (send c w) = now w"
  "triggeredCameras (send c w) = triggeredCameras w"
  "triggeredCameraTimers (send c w) = triggeredCameraTimers w"
  "nextTimer (send c w) = nextTimer w"
  "timeouts (send c w) = timeouts w"
  "throttled (send c w) = throttled w"
  "triggered (send c w) = triggered w"
  "commands (send c w) = commands w @ [c]"
  by (simp_all add: send_def)

lemma elapse_fields [simp]:
  "now (elapse d w) = now w + d"
  "triggeredCameras (elapse d w) = triggeredCameras w"
  "triggeredCameraTimers (elapse d w) = triggeredCameraTimers w"
  "nextTimer (elapse d w) = nextTimer w"
  "timeouts (elapse d w) = timeouts w"
  "throttled (elapse d w) = throttled w"
  "triggered (elapse d w) = triggered w"
  "commands (elapse d w) = commands w"
  by (simp_all add: elapse_def)

lemma Timer_stop_fields [simp]:
  "now (Timer_stop t w) = now w"
  "triggeredCameras (Timer_stop t w) = triggeredCameras w"
  "triggeredCameraTimers (Timer_stop t w) = triggeredCameraTimers w"
  "nextTimer (Timer_stop t w) = nextTimer w"
  "timeouts (Timer_stop t w) = AList.delete t (timeouts w)"
  "throttled (Timer_stop t w) = throttled w"
  "triggered (Timer_stop t w) = triggered w"
  "commands (Timer_stop t w) = commands w"
  by (simp_all add: Timer_stop_def)

lemma deleteTimer_fields [simp]:
  "now (deleteTimer c w) = now w"
  "triggeredCameras (deleteTimer c w) = triggeredCameras w"
  "triggeredCameraTimers (deleteTimer c w) = AList.delete c (triggeredCameraTimers w)"
  "nextTimer (deleteTimer c w) = nextTimer w"
  "timeouts (deleteTimer c w) =
     (case map_of (triggeredCameraTimers w) c of
        None \<Rightarrow> timeouts w
      | Some t \<Rightarrow> AList.delete t (timeouts w))"
  "throttled (deleteTimer c w) = throttled w"
  "triggered (deleteTimer c w) = triggered w"
  "commands (deleteTimer c w) = commands w"
  by (simp_all add: deleteTimer_def Let_def split: option.splits)

lemma setConditionStateIfNecessary_fields [simp]:
  "now (setConditionStateIfNecessary w) = now w"
  "triggeredCameras (setConditionStateIfNecessary w) = triggeredCameras w"
  "triggeredCameraTimers (setConditionStateIfNecessary w) = triggeredCameraTimers w"
  "nextTimer (setConditionStateIfNecessary w) = nextTimer w"
  "timeouts (setConditionStateIfNecessary w) = timeouts w"
  "throttled (setConditionStateIfNecessary w) = throttled w"
  "triggered (setConditionStateIfNecessary w) = triggeredState w"
  "commands (setConditionStateIfNecessary w) =
     commands w @ (if triggeredState w \<noteq> triggered w then [SetState (triggeredState w)] else [])"
  by (simp_all add: setConditionStateIfNecessary_def setState_triggered_def)

lemma triggerAction_fields [simp]:
  "now (triggerAction api ev w) = now w"
  "triggeredCameras (triggerAction api ev w) = triggeredCameras w"
  "triggeredCameraTimers (triggerAction api ev w) = triggeredCameraTimers w"
  "nextTimer (triggerAction api ev w) = nextTimer w"
  "timeouts (triggerAction api ev w) = timeouts w"
  "throttled (triggerAction api ev w) = throttled w"
  "triggered (triggerAction api ev w) = triggered w"
  by (simp_all add: triggerAction_def Let_def)

lemma triggerAction_stateWrites [simp]:
  "stateWrites (triggerAction api ev w) = stateWrites w"
  by (simp add: triggerAction_def Let_def stateWrites_def)

lemma engine_triggerAction [simp]: "engine (triggerAction api ev w) = engine w"
  by (simp add: engine_def)

lemma engine_throttled_update [simp]: "engine (w\<lparr>throttled := th\<rparr>) = engine w"
  by (simp add: engine_def stateWrites_def)

lemma engine_invokeFunc [simp]: "engine (invokeFunc api time w) = engine w"
  by (simp add: invokeFunc_def Let_def split: option.splits)

lemma engine_timerExpired [simp]: "engine (timerExpired api w) = engine w"
  by (simp add: timerExpired_def trailingEdge_def Let_def)

lemma engine_throttledTriggerAction [simp]: "engine (throttledTriggerAction api ev w) = engine w"
  by (simp add: throttledTriggerAction_def leadingEdge_def Let_def)

lemma engineD:
  assumes "engine w' = engine w"
  shows "now w' = now w" "triggeredCameras w' = triggeredCameras w"
    "triggeredCameraTimers w' = triggeredCameraTimers w" "nextTimer w' = nextTimer w"
    "timeouts w' = timeouts w" "triggered w' = triggered w" "stateWrites w' = stateWrites w"
  using assms by (simp_all add: engine_def)

lemmas timerExpired_fields [simp] = engineD [OF engine_timerExpired]
lemmas throttledTriggerAction_fields [simp] = engineD [OF engine_throttledTriggerAction]

lemma untriggerAction_fields [simp]:
  "now (untriggerAction api c w) = now w"
  "triggeredCameras (untriggerAction api c w) = AList.delete c (triggeredCameras w)"
  "triggeredCameraTimers (untriggerAction api c w) = AList.delete c (triggeredCameraTimers w)"
  "nextTimer (untriggerAction api c w) = nextTimer w"
  "timeouts (untriggerAction api c w) =
     (case map_of (triggeredCameraTimers w) c of
        None \<Rightarrow> timeouts w
      | Some t \<Rightarrow> AList.delete t (timeouts w))"
  "throttled (untriggerAction api c w) = throttled w"
  by (simp_all add: untriggerAction_def Let_def split: option.splits)

lemma untriggerAction_published [simp]:
  "triggered (untriggerAction api c w) = triggeredState (untriggerAction api c w)"
  by (simp add: untriggerAction_def Let_def triggeredState_eq)

lemma untriggerAction_commands:
  "commands (untriggerAction api c w) =
     commands w
     @ (if configuredUntrigger api = Some UntriggerDefault
           \<and> hasAllowableInteractionStateForAction api
        then [SetViewDefault None] else [])
     @ (if triggeredState (untriggerAction api c w) \<noteq> triggered w
        then [SetState (triggeredState (untriggerAction api c w))] else [])
     @ [CardUpdate]"
  by (simp add: untriggerAction_def Let_def triggeredState_eq)

lemma Timer_start_fields [simp]:
  "now (Timer_start t s c w) = now w"
  "triggeredCameras (Timer_start t s c w) = triggeredCameras w"
  "triggeredCameraTimers (Timer_start t s c w) = triggeredCameraTimers w"
  "nextTimer (Timer_start t s c w) = nextTimer w"
  "timeouts (Timer_start t s c w) =
     AList.delete t (timeouts w) @ [(t, now w + int s * 1000, c)]"
  "throttled (Timer_start t s c w) = throttled w"
  "triggered (Timer_start t s c w) = triggered w"
  "commands (Timer_start t s c w) = commands w"
  by (simp_all add: Timer_start_def Let_def)

lemma startUntriggerTimer_fields [simp]:
  "now (startUntriggerTimer api c w) = now w"
  "triggeredCameras (startUntriggerTimer api c w) = triggeredCameras w"
  "triggeredCameraTimers (startUntriggerTimer api c w) =
     AList.delete c (triggeredCameraTimers w) @ [(c, nextTimer w)]"
  "nextTimer (startUntriggerTimer api c w) = Suc (nextTimer w)"
  "timeouts (startUntriggerTimer api c w) =
     AList.delete (nextTimer w)
       (case map_of (triggeredCameraTimers w) c of
          None \<Rightarrow> timeouts w
        | Some t \<Rightarrow> AList.delete t (timeouts w))
     @ [(nextTimer w, now w + int (configuredUntriggerSeconds api) * 1000, c)]"
  "throttled (startUntriggerTimer api c w) = throttled w"
  "triggered (startUntriggerTimer api c w) = triggered w"
  "commands (startUntriggerTimer api c w) = commands w"
  by (simp_all add: startUntriggerTimer_def configuredUntriggerSeconds_def Let_def update_after_delete
      split: option.splits)

subsection \<open>The timers stay in order\<close>

lemma handleCameraEvent_cases:
  "handleCameraEvent api ev w =
     (if discarded api ev then w
      else if type ev = End then startUntriggerTimer api (cameraID ev) w
      else throttledTriggerAction api ev
             (setConditionStateIfNecessary
                (w\<lparr>triggeredCameras := AList.update (cameraID ev) (now w) (triggeredCameras w)\<rparr>)))"
  by (simp add: handleCameraEvent_def discarded_def Let_def split: option.splits)

lemma timerOf_simp [simp]: "timerOf (t, d, c) = t"
  by (simp add: timerOf_def)

lemma cameraOf_simp [simp]: "cameraOf (t, d, c) = c"
  by (simp add: cameraOf_def)

lemma delete_timer_eq:
  "AList.delete t xs = filter (\<lambda>e. timerOf e \<noteq> t) xs"
  by (auto simp: AList.delete_eq timerOf_def intro: filter_cong)

lemma delete_camera_eq:
  "AList.delete c (map (\<lambda>e. (cameraOf e, timerOf e)) xs)
     = map (\<lambda>e. (cameraOf e, timerOf e)) (filter (\<lambda>e. cameraOf e \<noteq> c) xs)"
  by (induction xs) (auto simp: AList.delete_eq)

lemma distinct_same:
  assumes "distinct (map f xs)" "x \<in> set xs" "y \<in> set xs" "f x = f y"
  shows "x = y"
  using assms by (meson distinct_map inj_on_def)

lemma filter_timer_camera:
  assumes "distinct (map timerOf xs)" "distinct (map cameraOf xs)" "e \<in> set xs"
  shows "filter (\<lambda>x. timerOf x \<noteq> timerOf e) xs = filter (\<lambda>x. cameraOf x \<noteq> cameraOf e) xs"
proof (rule filter_cong [OF refl])
  fix x assume "x \<in> set xs"
  with assms show "(timerOf x \<noteq> timerOf e) = (cameraOf x \<noteq> cameraOf e)"
    using distinct_same [of timerOf xs x e] distinct_same [of cameraOf xs x e] by blast
qed

lemma registered_timer:
  assumes "map_of (map (\<lambda>e. (cameraOf e, timerOf e)) xs) c = Some t"
  shows "\<exists>e \<in> set xs. cameraOf e = c \<and> timerOf e = t"
  using assms by (auto dest!: map_of_SomeD)

lemma unregistered_camera:
  assumes "map_of (map (\<lambda>e. (cameraOf e, timerOf e)) xs) c = None"
  shows "filter (\<lambda>x. cameraOf x \<noteq> c) xs = xs"
  using assms by (induction xs) (auto split: if_splits)

lemma registered_of_running:
  assumes "distinct (map cameraOf xs)" "e \<in> set xs"
  shows "map_of (map (\<lambda>e. (cameraOf e, timerOf e)) xs) (cameraOf e) = Some (timerOf e)"
proof -
  have "distinct (map fst (map (\<lambda>e. (cameraOf e, timerOf e)) xs))"
    using assms(1) by (simp add: comp_def)
  moreover have "(cameraOf e, timerOf e) \<in> set (map (\<lambda>e. (cameraOf e, timerOf e)) xs)"
    using assms(2) by auto
  ultimately show ?thesis by (rule map_of_is_SomeI)
qed

text \<open>What deleting the timer of a camera does to the running timers, under the invariant.\<close>

lemma timeouts_after_delete:
  assumes "distinct (map timerOf xs)" "distinct (map cameraOf xs)"
  shows "(case map_of (map (\<lambda>e. (cameraOf e, timerOf e)) xs) c of
            None \<Rightarrow> xs
          | Some t \<Rightarrow> AList.delete t xs) = filter (\<lambda>x. cameraOf x \<noteq> c) xs"
proof (cases "map_of (map (\<lambda>e. (cameraOf e, timerOf e)) xs) c")
  case None
  then show ?thesis by (simp add: unregistered_camera)
next
  case (Some t)
  then obtain e where e: "e \<in> set xs" "cameraOf e = c" "timerOf e = t"
    using registered_timer by blast
  with assms filter_timer_camera [of xs e] Some show ?thesis
    by (simp add: delete_timer_eq)
qed

lemma timersOK_initial: "timersOK (initial t)"
  by (simp add: timersOK_def initial_def)

lemma timersOK_deleteTimer:
  assumes "timersOK w"
  shows "timersOK (deleteTimer c w)"
    and "timeouts (deleteTimer c w) = filter (\<lambda>x. cameraOf x \<noteq> c) (timeouts w)"
proof -
  from assms have d: "distinct (map timerOf (timeouts w))" "distinct (map cameraOf (timeouts w))"
    and m: "triggeredCameraTimers w = map (\<lambda>e. (cameraOf e, timerOf e)) (timeouts w)"
    and b: "list_all (\<lambda>e. timerOf e < nextTimer w) (timeouts w)"
    by (simp_all add: timersOK_def)
  show t: "timeouts (deleteTimer c w) = filter (\<lambda>x. cameraOf x \<noteq> c) (timeouts w)"
    using timeouts_after_delete [OF d] by (simp add: m)
  show "timersOK (deleteTimer c w)"
    unfolding timersOK_def t
    using d b by (simp add: m delete_camera_eq distinct_map_filter list_all_iff)
qed

lemma timersOK_startUntriggerTimer:
  assumes "timersOK w"
  shows "timersOK (startUntriggerTimer api c w)"
    and "timeouts (startUntriggerTimer api c w) =
           filter (\<lambda>x. cameraOf x \<noteq> c) (timeouts w)
           @ [(nextTimer w, now w + int (configuredUntriggerSeconds api) * 1000, c)]"
proof -
  from assms have d: "distinct (map timerOf (timeouts w))" "distinct (map cameraOf (timeouts w))"
    and m: "triggeredCameraTimers w = map (\<lambda>e. (cameraOf e, timerOf e)) (timeouts w)"
    and b: "list_all (\<lambda>e. timerOf e < nextTimer w) (timeouts w)"
    by (simp_all add: timersOK_def)
  let ?rest = "filter (\<lambda>x. cameraOf x \<noteq> c) (timeouts w)"
  have fresh: "filter (\<lambda>e. timerOf e \<noteq> nextTimer w) ?rest = ?rest"
    using b by (auto simp: list_all_iff intro!: filter_cong)
  show t: "timeouts (startUntriggerTimer api c w) =
           ?rest @ [(nextTimer w, now w + int (configuredUntriggerSeconds api) * 1000, c)]"
    using timeouts_after_delete [OF d, of c] fresh by (simp add: m delete_timer_eq)
  have "distinct (map timerOf ?rest)" "distinct (map cameraOf ?rest)"
    using d by (simp_all add: distinct_map_filter)
  moreover have "nextTimer w \<notin> timerOf ` set ?rest" "c \<notin> cameraOf ` set ?rest"
    using b by (auto simp: list_all_iff)
  moreover have "list_all (\<lambda>e. timerOf e < Suc (nextTimer w)) ?rest"
    using b by (auto simp: list_all_iff)
  ultimately show "timersOK (startUntriggerTimer api c w)"
    unfolding timersOK_def t
    by (simp add: m delete_camera_eq)
qed

lemma timersOK_cong:
  assumes "engine w' = engine w" "timersOK w"
  shows "timersOK w'"
  using assms by (simp add: timersOK_def engine_def)

lemma timersOK_fireTimer:
  assumes "timersOK w" "(t, due, c) \<in> set (timeouts w)"
  shows "timersOK (fireTimer api t c w)"
    and "timeouts (fireTimer api t c w) = filter (\<lambda>x. cameraOf x \<noteq> c) (timeouts w)"
proof -
  from assms have d: "distinct (map timerOf (timeouts w))" "distinct (map cameraOf (timeouts w))"
    and m: "triggeredCameraTimers w = map (\<lambda>e. (cameraOf e, timerOf e)) (timeouts w)"
    and b: "list_all (\<lambda>e. timerOf e < nextTimer w) (timeouts w)"
    by (simp_all add: timersOK_def)
  have r: "map_of (triggeredCameraTimers w) c = Some t"
    using registered_of_running [OF d(2) assms(2)] by (simp add: m)
  have same: "filter (\<lambda>x. timerOf x \<noteq> t) (timeouts w) = filter (\<lambda>x. cameraOf x \<noteq> c) (timeouts w)"
    using filter_timer_camera [OF d assms(2)] by simp
  have "timeouts (fireTimer api t c w) = AList.delete t (AList.delete t (timeouts w))"
    by (simp add: fireTimer_def r)
  also have "\<dots> = filter (\<lambda>x. timerOf x \<noteq> t) (timeouts w)"
    by (subst AList.delete_idem) (rule delete_timer_eq)
  finally show t: "timeouts (fireTimer api t c w) = filter (\<lambda>x. cameraOf x \<noteq> c) (timeouts w)"
    by (simp only: same)
  show "timersOK (fireTimer api t c w)"
    unfolding timersOK_def t
    using d b by (simp add: fireTimer_def m delete_camera_eq distinct_map_filter list_all_iff)
qed

lemma timersOK_handleCameraEvent:
  assumes "timersOK w"
  shows "timersOK (handleCameraEvent api ev w)"
proof -
  have "timersOK (throttledTriggerAction api ev
             (setConditionStateIfNecessary
                (w\<lparr>triggeredCameras := AList.update (cameraID ev) (now w) (triggeredCameras w)\<rparr>)))"
    using assms by (simp add: timersOK_def)
  then show ?thesis
    using assms by (simp add: handleCameraEvent_cases timersOK_startUntriggerTimer)
qed

lemma timersOK_step:
  assumes "step w w'" "timersOK w"
  shows "timersOK w'"
  using assms
proof (induction rule: step.induct)
  case (event w api ev)
  then show ?case by (rule timersOK_handleCameraEvent)
next
  case (time d w)
  then show ?case by (simp add: timersOK_def elapse_def)
next
  case (timer t due c w api)
  then show ?case by (simp add: timersOK_fireTimer)
next
  case (throttle w due api)
  then show ?case by (simp add: timersOK_def)
qed

lemma reachable_timersOK: "reachable w \<Longrightarrow> timersOK w"
  by (induction rule: reachable.induct) (auto intro: timersOK_initial timersOK_step)

subsection \<open>Untriggering\<close>

lemma triggeredState_not_empty: "triggeredState w \<noteq> Some {}"
  by (simp add: triggeredState_eq)

lemma getTriggeredCameraIDs_eq: "getTriggeredCameraIDs w = fst ` set (triggeredCameras w)"
  by (simp add: getTriggeredCameraIDs_def)

lemma keys_delete: "fst ` set (AList.delete c xs) = fst ` set xs - {c}"
  by (force simp: set_delete)

lemma delete_Nil_iff: "AList.delete c xs = [] \<longleftrightarrow> fst ` set xs \<subseteq> {c}"
  by (induction xs) auto

lemma triggeredState_delete:
  assumes "published w" "triggeredCameras w' = AList.delete c (triggeredCameras w)"
  shows "triggeredState w' \<noteq> triggered w \<longleftrightarrow> c \<in> getTriggeredCameraIDs w"
proof (cases "c \<in> fst ` set (triggeredCameras w)")
  case True
  then have "triggeredCameras w \<noteq> []" by auto
  moreover have "fst ` set (triggeredCameras w) - {c} \<noteq> fst ` set (triggeredCameras w)"
    using True by blast
  ultimately show ?thesis
    using assms True
    by (simp add: published_def triggeredState_eq getTriggeredCameraIDs_eq keys_delete)
next
  case False
  then show ?thesis
    using assms by (simp add: published_def triggeredState_eq getTriggeredCameraIDs_eq)
qed

lemma fireTimer_commands:
  "commands (fireTimer api t c w) =
     commands w
     @ (if configuredUntrigger api = Some UntriggerDefault
           \<and> hasAllowableInteractionStateForAction api
        then [SetViewDefault None] else [])
     @ (if triggeredState (fireTimer api t c w) \<noteq> triggered w
        then [SetState (triggeredState (fireTimer api t c w))] else [])
     @ [CardUpdate]"
  using untriggerAction_commands [of api c "Timer_stop t w"]
  by (simp add: fireTimer_def)


subsection \<open>The published state\<close>

lemma stateWrites_send:
  "stateWrites (send c w) = stateWrites w @ (if isSetState c then [c] else [])"
  by (simp add: stateWrites_def)

lemma stateWrites_setConditionStateIfNecessary:
  "stateWrites (setConditionStateIfNecessary w) =
     stateWrites w @ (if triggeredState w \<noteq> triggered w then [SetState (triggeredState w)] else [])"
  by (simp add: stateWrites_def)

lemma stateWrites_update [simp]:
  "stateWrites (w\<lparr>triggeredCameras := xs\<rparr>) = stateWrites w"
  "stateWrites (startUntriggerTimer api c w) = stateWrites w"
  "stateWrites (elapse d w) = stateWrites w"
  by (simp_all add: stateWrites_def elapse_def)

lemma stateWrites_fireTimer:
  "stateWrites (fireTimer api t c w) =
     stateWrites w @ (if triggeredState (fireTimer api t c w) \<noteq> triggered w
                      then [SetState (triggeredState (fireTimer api t c w))] else [])"
  by (simp add: stateWrites_def fireTimer_commands)

lemma stateWrites_handleCameraEvent:
  "stateWrites (handleCameraEvent api ev w) =
     stateWrites w
     @ (if \<not> discarded api ev \<and> type ev \<noteq> End
           \<and> triggered w \<noteq> Some (insert (cameraID ev) (getTriggeredCameraIDs w))
        then [SetState (Some (insert (cameraID ev) (getTriggeredCameraIDs w)))] else [])"
  by (simp add: handleCameraEvent_cases stateWrites_setConditionStateIfNecessary
      triggeredState_eq getTriggeredCameraIDs_eq AList.dom_update)

lemma published_handleCameraEvent:
  assumes "published w"
  shows "published (handleCameraEvent api ev w)"
  using assms
  by (simp add: handleCameraEvent_cases published_def triggeredState_eq)

lemma started_handleCameraEvent:
  assumes "\<not> discarded api ev" "type ev \<noteq> End"
  shows "published (handleCameraEvent api ev w)"
    and "cameraID ev \<in> getTriggeredCameraIDs (handleCameraEvent api ev w)"
  using assms
  by (simp_all add: handleCameraEvent_cases published_def triggeredState_eq
      getTriggeredCameraIDs_eq AList.dom_update)

lemma published_step:
  assumes "step w w'" "published w"
  shows "published w'"
  using assms
proof (induction rule: step.induct)
  case (event w api ev)
  then show ?case by (rule published_handleCameraEvent)
next
  case (time d w)
  then show ?case by (simp add: published_def triggeredState_eq elapse_def)
next
  case (timer t due c w api)
  then show ?case by (simp add: published_def fireTimer_def)
next
  case (throttle w due api)
  then show ?case by (simp add: published_def triggeredState_eq)
qed

lemma reachable_published: "reachable w \<Longrightarrow> published w"
proof (induction rule: reachable.induct)
  case (boot t)
  show ?case by (simp add: published_def triggeredState_eq initial_def)
next
  case (after w w')
  then show ?case by (simp add: published_step)
qed

lemma already_triggered:
  assumes "published w" "cameraID ev \<in> getTriggeredCameraIDs w"
  shows "stateWrites (handleCameraEvent api ev w) = stateWrites w"
proof -
  have "triggeredCameras w \<noteq> []"
    using assms(2) by (auto simp: getTriggeredCameraIDs_eq)
  then have "triggered w = Some (insert (cameraID ev) (getTriggeredCameraIDs w))"
    using assms by (simp add: published_def triggeredState_eq getTriggeredCameraIDs_eq insert_absorb)
  then show ?thesis by (simp add: stateWrites_handleCameraEvent)
qed




lemma no_empty_write_step:
  assumes "step w w'" "SetState (Some {}) \<notin> set (stateWrites w)"
  shows "SetState (Some {}) \<notin> set (stateWrites w')"
  using assms
proof (induction rule: step.induct)
  case (event w api ev)
  then show ?case by (simp add: stateWrites_handleCameraEvent)
next
  case (time d w)
  then show ?case by simp
next
  case (timer t due c w api)
  then show ?case
    using triggeredState_not_empty [of "fireTimer api t c w"]
    by (auto simp: stateWrites_fireTimer)
next
  case (throttle w due api)
  then show ?case by simp
qed

lemma reachable_no_empty_write: "reachable w \<Longrightarrow> SetState (Some {}) \<notin> set (stateWrites w)"
proof (induction rule: reachable.induct)
  case (boot t)
  show ?case by (simp add: stateWrites_def initial_def)
next
  case (after w w')
  then show ?case by (simp add: no_empty_write_step)
qed


subsection \<open>The head of a stable sort\<close>

lemma sort_key_Nil_iff: "sort_key f xs = [] \<longleftrightarrow> xs = []"
  by (metis length_sort length_0_conv)

lemma hd_sort_key:
  assumes "xs \<noteq> []"
  shows "hd (sort_key f xs) \<in> set xs"
    and "\<forall>y \<in> set xs. f (hd (sort_key f xs)) \<le> f y"
    and "hd (sort_key f xs) = hd (filter (\<lambda>y. f y = f (hd (sort_key f xs))) xs)"
proof -
  let ?s = "sort_key f xs"
  have ne: "?s \<noteq> []" using assms by (simp add: sort_key_Nil_iff)
  then obtain h t where s: "?s = h # t" by (cases ?s) auto
  have "h \<in> set xs" using set_sort [of f xs] s by (metis list.set_intros(1))
  then show "hd ?s \<in> set xs" by (simp add: s)
  have "sorted (map f ?s)" by (rule sorted_sort_key)
  then have "\<forall>y \<in> set (h # t). f h \<le> f y" by (auto simp: s)
  then have "\<forall>y \<in> set ?s. f h \<le> f y" by (simp only: s)
  then have "\<forall>y \<in> set xs. f h \<le> f y" by (simp only: set_sort)
  then show "\<forall>y \<in> set xs. f (hd ?s) \<le> f y" by (simp add: s)
  have "filter (\<lambda>y. f y = f h) ?s = filter (\<lambda>y. f y = f h) xs"
    by (rule sort_key_stable)
  moreover have "hd (filter (\<lambda>y. f y = f h) ?s) = h" by (simp add: s)
  ultimately have "h = hd (filter (\<lambda>y. f y = f h) xs)" by simp
  then show "hd ?s = hd (filter (\<lambda>y. f y = f (hd ?s)) xs)" by (simp add: s)
qed

lemma one_per_camera:
  assumes "distinct (map f xs)"
  shows "length (filter (\<lambda>e. f e = c) xs) \<le> 1"
  using assms by (induction xs) (auto simp: filter_empty_conv image_iff)

subsection \<open>One window of the throttled wrapper\<close>

lemma triggerAction_commands_cong:
  assumes "commands w1 = commands w2"
  shows "commands (triggerAction api ev w1) = commands (triggerAction api ev w2)"
  using assms by (simp add: triggerAction_def Let_def)

lemma first_call:
  assumes "timerId (throttled w) = None" "shouldInvoke (now w) (throttled w)"
  shows "throttledTriggerAction api ev w =
           triggerAction api ev
             (w\<lparr>throttled := (throttled w)\<lparr>lastCallTime := Some (now w),
                                            timerId := Some (now w + wait),
                                            lastArgs := None, lastInvokeTime := now w\<rparr>\<rparr>)"
  using assms
  by (simp add: throttledTriggerAction_def leadingEdge_def invokeFunc_def Let_def)

lemma first_call_opens:
  assumes "timerId (throttled w) = None" "shouldInvoke (now w) (throttled w)"
  shows "windowOpen (now w) (throttledTriggerAction api ev w)"
    and "commands (throttledTriggerAction api ev w) = commands (triggerAction api ev w)"
    and "lastArgs (throttled (throttledTriggerAction api ev w)) = None"
    and "now (throttledTriggerAction api ev w) = now w"
proof -
  note f = first_call [OF assms]
  show "windowOpen (now w) (throttledTriggerAction api ev w)"
    by (simp add: f windowOpen_def wait_def)
  show "commands (throttledTriggerAction api ev w) = commands (triggerAction api ev w)"
    unfolding f by (rule triggerAction_commands_cong) simp
  show "lastArgs (throttled (throttledTriggerAction api ev w)) = None"
    by (simp add: f)
  show "now (throttledTriggerAction api ev w) = now w"
    by (simp add: f)
qed

lemma later_call:
  assumes "windowOpen t0 w" "0 \<le> d" "now w + d < t0 + wait"
  shows "throttledTriggerAction api ev (elapse d w) =
           (elapse d w)\<lparr>throttled := (throttled w)\<lparr>lastArgs := Some ev,
                                                     lastCallTime := Some (now w + d)\<rparr>\<rparr>"
proof -
  have "\<not> shouldInvoke (now (elapse d w)) (throttled (elapse d w))"
    using assms by (auto simp: windowOpen_def shouldInvoke_def split: option.splits)
  moreover have "timerId (throttled (elapse d w)) \<noteq> None"
    using assms by (simp add: windowOpen_def)
  ultimately show ?thesis
    by (simp add: throttledTriggerAction_def Let_def)
qed

lemma later_call_keeps:
  assumes "windowOpen t0 w" "0 \<le> d" "now w + d < t0 + wait"
  shows "windowOpen t0 (throttledTriggerAction api ev (elapse d w))"
  unfolding later_call [OF assms]
  using assms by (auto simp: windowOpen_def split: option.splits)

lemma calls_in_window:
  assumes "windowOpen t0 w" "list_all (\<lambda>c. 0 \<le> fst c) cs"
    "now w + sum_list (map fst cs) < t0 + wait"
  shows "windowOpen t0 (calls cs w)
       \<and> commands (calls cs w) = commands w
       \<and> now (calls cs w) = now w + sum_list (map fst cs)
       \<and> lastArgs (throttled (calls cs w)) =
           (if cs = [] then lastArgs (throttled w) else Some (snd (snd (last cs))))"
  using assms
proof (induction cs arbitrary: w)
  case Nil
  then show ?case by simp
next
  case (Cons c cs)
  obtain d api ev where c: "c = (d, api, ev)" by (cases c) auto
  let ?w = "throttledTriggerAction api ev (elapse d w)"
  have d: "0 \<le> d" and rest: "list_all (\<lambda>c. 0 \<le> fst c) cs"
    using Cons.prems(2) by (simp_all add: c)
  have "0 \<le> sum_list (map fst cs)"
    using rest by (auto simp: list_all_iff intro!: sum_list_nonneg)
  then have lt: "now w + d < t0 + wait"
    using Cons.prems(3) by (simp add: c)
  have 1: "windowOpen t0 ?w"
    using Cons.prems(1) d lt by (rule later_call_keeps)
  have 2: "now ?w = now w + d" "commands ?w = commands w"
    "lastArgs (throttled ?w) = Some ev"
    by (simp_all add: later_call [OF Cons.prems(1) d lt])
  have 3: "now ?w + sum_list (map fst cs) < t0 + wait"
    using Cons.prems(3) by (simp add: 2 c)
  show ?case
    using Cons.IH [OF 1 rest 3] by (simp add: c 2)
qed

lemma expiry:
  assumes "windowOpen t0 w" "0 \<le> d" "t0 + wait \<le> now w + d"
  shows "timerExpired api (elapse d w) =
           (case lastArgs (throttled w) of
              None \<Rightarrow> (elapse d w)\<lparr>throttled := (throttled w)\<lparr>timerId := None, lastArgs := None\<rparr>\<rparr>
            | Some ev \<Rightarrow>
                triggerAction api ev
                  ((elapse d w)\<lparr>throttled := (throttled w)\<lparr>timerId := None, lastArgs := None,
                                                          lastInvokeTime := now w + d\<rparr>\<rparr>))"
proof -
  have "shouldInvoke (now (elapse d w)) (throttled (elapse d w))"
    using assms by (auto simp: windowOpen_def shouldInvoke_def split: option.splits)
  then show ?thesis
    by (simp add: timerExpired_def trailingEdge_def invokeFunc_def Let_def
        split: option.splits)
qed

subsection \<open>The example run, evaluated\<close>

lemmas eval_defs =
  example_defs config_defs examplePolicy_def exampleStart_def exampleEnd_def
  handleCameraEvent_def throttledTriggerAction_def leadingEdge_def invokeFunc_def
  trailingEdge_def timerExpired_def shouldInvoke_def remainingWait_def wait_def
  triggerAction_def untriggerAction_def startUntriggerTimer_def fireTimer_def
  deleteTimer_def Timer_start_def Timer_stop_def setConditionStateIfNecessary_def
  setState_triggered_def triggeredState_def send_def elapse_def
  hasAllowableInteractionStateForAction_def initial_def Let_def

lemma triggeredWorld_eq:
  "triggeredWorld =
    \<lparr>now = 0, triggeredCameras = [(''A'', 0)], triggeredCameraTimers = [],
     nextTimer = 0, timeouts = [],
     throttled = \<lparr>lastArgs = None, lastCallTime = Some 0, lastInvokeTime = 0,
                  timerId = Some 1000\<rparr>,
     triggered = Some {''A''},
     commands = [SetState (Some {''A''}), SetViewByParameters ''live'' ''A'', CardUpdate]\<rparr>"
  by (simp add: triggeredWorld_def eval_defs)

lemma settledWorld_eq:
  "settledWorld =
    \<lparr>now = 1000, triggeredCameras = [(''A'', 0)], triggeredCameraTimers = [],
     nextTimer = 0, timeouts = [],
     throttled = \<lparr>lastArgs = None, lastCallTime = Some 0, lastInvokeTime = 0,
                  timerId = None\<rparr>,
     triggered = Some {''A''},
     commands = [SetState (Some {''A''}), SetViewByParameters ''live'' ''A'', CardUpdate]\<rparr>"
  by (simp add: settledWorld_def triggeredWorld_eq eval_defs)

lemma endedWorld_eq:
  "endedWorld =
    \<lparr>now = 1000, triggeredCameras = [(''A'', 0)], triggeredCameraTimers = [(''A'', 0)],
     nextTimer = 1, timeouts = [(0, 11000, ''A'')],
     throttled = \<lparr>lastArgs = None, lastCallTime = Some 0, lastInvokeTime = 0,
                  timerId = None\<rparr>,
     triggered = Some {''A''},
     commands = [SetState (Some {''A''}), SetViewByParameters ''live'' ''A'', CardUpdate]\<rparr>"
  by (simp add: endedWorld_def settledWorld_eq eval_defs)

lemma untriggeredWorld_eq:
  "untriggeredWorld =
    \<lparr>now = 11000, triggeredCameras = [], triggeredCameraTimers = [],
     nextTimer = 1, timeouts = [],
     throttled = \<lparr>lastArgs = None, lastCallTime = Some 0, lastInvokeTime = 0,
                  timerId = None\<rparr>,
     triggered = None,
     commands = [SetState (Some {''A''}), SetViewByParameters ''live'' ''A'', CardUpdate,
                 SetViewDefault None, SetState None, CardUpdate]\<rparr>"
  by (simp add: untriggeredWorld_def endedWorld_eq eval_defs)

lemma retriggeredWorld_eq:
  "retriggeredWorld =
    \<lparr>now = 5000, triggeredCameras = [(''A'', 5000)], triggeredCameraTimers = [(''A'', 0)],
     nextTimer = 1, timeouts = [(0, 11000, ''A'')],
     throttled = \<lparr>lastArgs = None, lastCallTime = Some 5000, lastInvokeTime = 5000,
                  timerId = Some 6000\<rparr>,
     triggered = Some {''A''},
     commands = [SetState (Some {''A''}), SetViewByParameters ''live'' ''A'', CardUpdate,
                 SetViewByParameters ''live'' ''A'', CardUpdate]\<rparr>"
  by (simp add: retriggeredWorld_def endedWorld_eq eval_defs)

lemma resettledWorld_eq:
  "resettledWorld =
    \<lparr>now = 6000, triggeredCameras = [(''A'', 5000)], triggeredCameraTimers = [(''A'', 0)],
     nextTimer = 1, timeouts = [(0, 11000, ''A'')],
     throttled = \<lparr>lastArgs = None, lastCallTime = Some 5000, lastInvokeTime = 5000,
                  timerId = None\<rparr>,
     triggered = Some {''A''},
     commands = [SetState (Some {''A''}), SetViewByParameters ''live'' ''A'', CardUpdate,
                 SetViewByParameters ''live'' ''A'', CardUpdate]\<rparr>"
  by (simp add: resettledWorld_def retriggeredWorld_eq eval_defs)

lemma staleWorld_eq:
  "staleWorld =
    \<lparr>now = 11000, triggeredCameras = [], triggeredCameraTimers = [],
     nextTimer = 1, timeouts = [],
     throttled = \<lparr>lastArgs = None, lastCallTime = Some 5000, lastInvokeTime = 5000,
                  timerId = None\<rparr>,
     triggered = None,
     commands = [SetState (Some {''A''}), SetViewByParameters ''live'' ''A'', CardUpdate,
                 SetViewByParameters ''live'' ''A'', CardUpdate,
                 SetViewDefault None, SetState None, CardUpdate]\<rparr>"
  by (simp add: staleWorld_def resettledWorld_eq eval_defs)

lemma reachable_triggeredWorld: "reachable triggeredWorld"
  unfolding triggeredWorld_def by (rule reachable.after [OF reachable.boot step.event])

lemma reachable_elapse: "reachable w \<Longrightarrow> 0 \<le> d \<Longrightarrow> reachable (elapse d w)"
  by (rule reachable.after [OF _ step.time])

lemma reachable_settledWorld: "reachable settledWorld"
  unfolding settledWorld_def
proof (rule reachable.after [OF _ step.throttle])
  show "reachable (elapse 1000 triggeredWorld)"
    by (simp add: reachable_elapse reachable_triggeredWorld)
  show "timerId (throttled (elapse 1000 triggeredWorld)) = Some 1000"
    by (simp add: triggeredWorld_eq elapse_def)
  show "1000 \<le> now (elapse 1000 triggeredWorld)"
    by (simp add: triggeredWorld_eq elapse_def)
qed

lemma reachable_endedWorld: "reachable endedWorld"
  unfolding endedWorld_def by (rule reachable.after [OF reachable_settledWorld step.event])

lemma reachable_untriggeredWorld: "reachable untriggeredWorld"
  unfolding untriggeredWorld_def
proof (rule reachable.after [OF _ step.timer])
  show "reachable (elapse 10000 endedWorld)"
    by (simp add: reachable_elapse reachable_endedWorld)
  show "(0, 11000, ''A'') \<in> set (timeouts (elapse 10000 endedWorld))"
    by (simp add: endedWorld_eq elapse_def)
  show "11000 \<le> now (elapse 10000 endedWorld)"
    by (simp add: endedWorld_eq elapse_def)
qed

lemma secondWorld_eq:
  "secondWorld =
    \<lparr>now = 100, triggeredCameras = [(''A'', 0), (''B'', 100)], triggeredCameraTimers = [],
     nextTimer = 0, timeouts = [],
     throttled = \<lparr>lastArgs = Some exampleStartB, lastCallTime = Some 100, lastInvokeTime = 0,
                  timerId = Some 1000\<rparr>,
     triggered = Some {''A'', ''B''},
     commands = [SetState (Some {''A''}), SetViewByParameters ''live'' ''A'', CardUpdate,
                 SetState (Some {''A'', ''B''})]\<rparr>"
  by (simp add: secondWorld_def triggeredWorld_eq exampleStartB_def eval_defs)

lemma closedWorld_eq:
  "closedWorld =
    \<lparr>now = 1000, triggeredCameras = [(''A'', 0), (''B'', 100)], triggeredCameraTimers = [],
     nextTimer = 0, timeouts = [],
     throttled = \<lparr>lastArgs = None, lastCallTime = Some 100, lastInvokeTime = 1000,
                  timerId = None\<rparr>,
     triggered = Some {''A'', ''B''},
     commands = [SetState (Some {''A''}), SetViewByParameters ''live'' ''A'', CardUpdate,
                 SetState (Some {''A'', ''B''}),
                 SetViewByParameters ''live'' ''B'', CardUpdate]\<rparr>"
  by (simp add: closedWorld_def secondWorld_eq exampleStartB_def eval_defs)

section \<open>The claims\<close>

text \<open>
  C1, on the code. The start branch of \<open>handleCameraEvent\<close> (lines 61 to 63) never touches the
  timers. In the example run the start event of time 5000 finds the timer of camera A
  armed, due at 11000, and leaves it armed; at 11000 the runtime may fire it, and the
  camera, triggered anew at 5000, leaves the triggered cameras.
\<close>

theorem retrigger_keeps_stale_timer:
  "\<not> discarded examplePolicy exampleStart \<and> type exampleStart \<noteq> End
   \<and> timeouts (elapse 4000 endedWorld) = [(0, 11000, ''A'')]
   \<and> now (elapse 4000 endedWorld) = 5000
   \<and> timeouts retriggeredWorld = [(0, 11000, ''A'')]
   \<and> triggeredCameraTimers retriggeredWorld = [(''A'', 0)]
   \<and> triggeredCameras retriggeredWorld = [(''A'', 5000)]
   \<and> step (elapse 5000 resettledWorld) staleWorld
   \<and> getTriggeredCameraIDs staleWorld = {}
   \<and> triggered staleWorld = None"
proof -
  have "step (elapse 5000 resettledWorld) (fireTimer examplePolicy 0 ''A'' (elapse 5000 resettledWorld))"
    by (rule step.timer [where due = 11000]) (simp_all add: resettledWorld_eq elapse_def)
  then have "step (elapse 5000 resettledWorld) staleWorld"
    by (simp add: staleWorld_def)
  moreover have "\<not> discarded examplePolicy exampleStart \<and> type exampleStart \<noteq> End"
    by (simp add: discarded_def examplePolicy_def exampleStart_def example_defs)
  ultimately show ?thesis
    by (simp add: retriggeredWorld_eq staleWorld_eq endedWorld_eq elapse_def
        getTriggeredCameraIDs_def)
qed

text \<open>
  C2, as stated, fails. \<open>throttle\<close> is called with \<open>trailing: true\<close> and nothing about
  \<open>leading\<close>, which lodash then takes as true: the first call on an idle wrapper executes
  at once. In the second example run the action for camera A is executed at time 0, and
  the action for camera B at time 1000, when the timeout of the same window fires: two
  executions for one window, the first not at its end and not with the last event.
\<close>

theorem throttle_counterexample:
  "now triggeredWorld = 0
   \<and> commands triggeredWorld =
       [SetState (Some {''A''}), SetViewByParameters ''live'' ''A'', CardUpdate]
   \<and> now secondWorld = 100
   \<and> timerId (throttled secondWorld) = Some 1000
   \<and> now closedWorld = 1000
   \<and> commands closedWorld =
       [SetState (Some {''A''}), SetViewByParameters ''live'' ''A'', CardUpdate,
        SetState (Some {''A'', ''B''}), SetViewByParameters ''live'' ''B'', CardUpdate]"
  by (simp add: triggeredWorld_eq secondWorld_eq closedWorld_eq)

text \<open>
  C2, amended. Take a wrapper that is idle: no timeout pending, and \<open>shouldInvoke\<close> true
  (a new engine, or at least a second since the last call or the last execution). The
  first call executes the trigger action at once, with its own event. Further calls within
  the second that follows execute nothing and leave the timeout of the window pending.
  When that timeout fires, at or after the end of the window, the trigger action is
  executed once more if there were further calls, with the event of the last of them and
  the collaborators as read then, and not at all otherwise; the events between the first
  and the last are never executed.
\<close>

theorem throttle_window:
  assumes idle: "timerId (throttled w) = None \<and> shouldInvoke (now w) (throttled w)"
    and gaps: "list_all (\<lambda>c. 0 \<le> fst c) cs \<and> sum_list (map fst cs) < wait"
    and due: "0 \<le> d \<and> wait \<le> sum_list (map fst cs) + d"
  shows "commands (throttledTriggerAction api ev w) = commands (triggerAction api ev w)
       \<and> commands (calls cs (throttledTriggerAction api ev w)) = commands (triggerAction api ev w)
       \<and> timerId (throttled (calls cs (throttledTriggerAction api ev w))) = Some (now w + wait)
       \<and> now (calls cs (throttledTriggerAction api ev w)) < now w + wait
       \<and> commands (timerExpired api' (elapse d (calls cs (throttledTriggerAction api ev w)))) =
           (if cs = [] then commands (triggerAction api ev w)
            else commands (triggerAction api' (snd (snd (last cs))) (triggerAction api ev w)))
       \<and> timerId (throttled (timerExpired api' (elapse d (calls cs (throttledTriggerAction api ev w)))))
           = None"
proof -
  let ?w1 = "throttledTriggerAction api ev w"
  let ?w2 = "calls cs ?w1"
  have i: "timerId (throttled w) = None" "shouldInvoke (now w) (throttled w)"
    using idle by simp_all
  note o = first_call_opens [OF i, of api ev]
  have lt: "now ?w1 + sum_list (map fst cs) < now w + wait"
    using gaps by (simp add: o(4))
  have g: "list_all (\<lambda>c. 0 \<le> fst c) cs" using gaps by simp
  note c = calls_in_window [OF o(1) g lt]
  have w2: "windowOpen (now w) ?w2" "commands ?w2 = commands (triggerAction api ev w)"
    "now ?w2 = now w + sum_list (map fst cs)"
    "lastArgs (throttled ?w2) = (if cs = [] then None else Some (snd (snd (last cs))))"
    using c by (simp_all add: o)
  have d: "0 \<le> d" "now w + wait \<le> now ?w2 + d"
    using due by (simp_all add: w2(3))
  note e = expiry [OF w2(1) d, of api']
  have 5: "commands (timerExpired api' (elapse d ?w2)) =
           (if cs = [] then commands (triggerAction api ev w)
            else commands (triggerAction api' (snd (snd (last cs))) (triggerAction api ev w)))"
  proof (cases "cs = []")
    case True
    then show ?thesis using e w2(2,4) by simp
  next
    case False
    have "commands (timerExpired api' (elapse d ?w2)) =
            commands (triggerAction api' (snd (snd (last cs)))
              ((elapse d ?w2)\<lparr>throttled := (throttled ?w2)\<lparr>timerId := None, lastArgs := None,
                                                          lastInvokeTime := now ?w2 + d\<rparr>\<rparr>))"
      using False by (simp add: e w2(4))
    also have "\<dots> = commands (triggerAction api' (snd (snd (last cs))) (triggerAction api ev w))"
      by (rule triggerAction_commands_cong) (simp add: w2(2))
    finally show ?thesis using False by simp
  qed
  have 6: "timerId (throttled (timerExpired api' (elapse d ?w2))) = None"
    by (simp add: e split: option.splits)
  have 3: "timerId (throttled ?w2) = Some (now w + wait)" "now ?w2 < now w + wait"
    using w2(1) by (simp_all add: windowOpen_def)
  show ?thesis using o(2) w2(2) 3 5 6 by simp
qed

theorem throttle_window_witness:
  "timerId (throttled (initial 0)) = None \<and> shouldInvoke (now (initial 0)) (throttled (initial 0))
   \<and> commands (throttledTriggerAction examplePolicy exampleStart (initial 0)) =
       [SetViewByParameters ''live'' ''A'', CardUpdate]
   \<and> commands (timerExpired examplePolicy (elapse 900
         (calls [(100, examplePolicy, exampleStartB)]
            (throttledTriggerAction examplePolicy exampleStart (initial 0))))) =
       [SetViewByParameters ''live'' ''A'', CardUpdate,
        SetViewByParameters ''live'' ''B'', CardUpdate]"
proof -
  have h: "timerId (throttled (initial 0)) = None
           \<and> shouldInvoke (now (initial 0)) (throttled (initial 0))"
    by (simp add: initial_def shouldInvoke_def)
  have g: "list_all (\<lambda>c. 0 \<le> fst c) [(100::int, examplePolicy, exampleStartB)]
           \<and> sum_list (map fst [(100::int, examplePolicy, exampleStartB)]) < wait"
    by (simp add: wait_def)
  have d: "(0::int) \<le> 900 \<and> wait \<le> sum_list (map fst [(100::int, examplePolicy, exampleStartB)]) + 900"
    by (simp add: wait_def)
  note t = throttle_window [OF h g d, of examplePolicy exampleStart examplePolicy]
  have a: "commands (triggerAction examplePolicy exampleStart (initial 0)) =
             [SetViewByParameters ''live'' ''A'', CardUpdate]"
    by (simp add: eval_defs)
  have b: "commands (triggerAction examplePolicy exampleStartB
                       (triggerAction examplePolicy exampleStart (initial 0))) =
             [SetViewByParameters ''live'' ''A'', CardUpdate,
              SetViewByParameters ''live'' ''B'', CardUpdate]"
    by (simp add: exampleStartB_def eval_defs)
  show ?thesis
    using h t by (simp add: a b)
qed

text \<open>
  C3, as stated, fails: with the action \<open>default\<close> and a default view that is not \<open>live\<close>, a
  low-fidelity event makes the engine navigate to that default view.
\<close>

theorem low_fidelity_counterexample:
  "fidelity (exampleEvent ''A'' New Low False False) = Low
   \<and> \<not> list_all (isLiveNavigation (exampleAPI ''clips'' TriggerDefault ModeAll))
         (commands (triggerAction (exampleAPI ''clips'' TriggerDefault ModeAll)
                      (exampleEvent ''A'' New Low False False) (initial 0)))"
  by (simp add: example_defs config_defs triggerAction_def
      hasAllowableInteractionStateForAction_def send_def initial_def)

text \<open>
  C3, amended. For a low-fidelity event the trigger action sends, when the interaction gate
  permits, a change to the live view of the event's camera (action \<open>live\<close>) or a change to the
  configured default view for that camera, whatever that view is (action \<open>default\<close>), and
  nothing otherwise; then the refresh. So a low-fidelity event never navigates to a clip or
  a snapshot view by the action \<open>media\<close>.
\<close>

theorem triggerAction_low_fidelity:
  assumes "fidelity ev = Low"
  shows "commands (triggerAction api ev w) =
           commands w
           @ (if hasAllowableInteractionStateForAction api
              then (if configuredTrigger api = Some TriggerLive
                    then [SetViewByParameters ''live'' (cameraID ev)]
                    else if configuredTrigger api = Some TriggerDefault
                    then [SetViewDefault (Some (cameraID ev))]
                    else [])
              else [])
           @ [CardUpdate]"
  using assms by (simp add: triggerAction_def send_def Let_def)

theorem triggerAction_low_fidelity_witness:
  "fidelity (exampleEvent ''A'' New Low False True) = Low
   \<and> commands (triggerAction (exampleAPI ''clips'' TriggerMedia ModeAll)
                 (exampleEvent ''A'' New Low False True) (initial 0)) = [CardUpdate]"
  using triggerAction_low_fidelity [of "exampleEvent ''A'' New Low False True"
          "exampleAPI ''clips'' TriggerMedia ModeAll" "initial 0"]
  by (simp add: example_defs config_defs hasAllowableInteractionStateForAction_def initial_def)

text \<open>
  C4, as stated, fails: a suppressed execution returns at line 95, before the refresh of
  line 117.
\<close>

theorem suppressed_counterexample:
  "suppressed (exampleAPI ''clips'' TriggerMedia ModeAll) (exampleEvent ''A'' New High False False)
   \<and> CardUpdate \<notin> set (commands (triggerAction (exampleAPI ''clips'' TriggerMedia ModeAll)
                                   (exampleEvent ''A'' New High False False) (initial 0)))"
  by (simp add: example_defs config_defs suppressed_def triggerAction_def
      hasAllowableInteractionStateForAction_def send_def initial_def)

text \<open>
  C4, amended. An execution of the trigger action that is not suppressed ends with the
  request of a refresh, after at most one navigation command and after none when the
  interaction gate denies the action. A suppressed execution changes nothing and sends
  nothing, the refresh included.
\<close>

theorem triggerAction_refresh:
  "(suppressed api ev \<longrightarrow> triggerAction api ev w = w)
   \<and> (\<not> suppressed api ev \<longrightarrow>
        (\<exists>nav. commands (triggerAction api ev w) = commands w @ nav @ [CardUpdate]
               \<and> length nav \<le> 1 \<and> CardUpdate \<notin> set nav
               \<and> (\<not> hasAllowableInteractionStateForAction api \<longrightarrow> nav = [])))"
  by (auto simp: triggerAction_def suppressed_def send_def Let_def)

theorem triggerAction_refresh_witness:
  "suppressed (exampleAPI ''clips'' TriggerMedia ModeAll) (exampleEvent ''A'' New High False False)
   \<and> triggerAction (exampleAPI ''clips'' TriggerMedia ModeAll)
       (exampleEvent ''A'' New High False False) (initial 0) = initial 0
   \<and> \<not> suppressed (exampleAPI ''clips'' TriggerLive ModeActive)
         (exampleEvent ''A'' New High False False)
   \<and> \<not> hasAllowableInteractionStateForAction (exampleAPI ''clips'' TriggerLive ModeActive)
   \<and> commands (triggerAction (exampleAPI ''clips'' TriggerLive ModeActive)
                 (exampleEvent ''A'' New High False False) (initial 0)) = [CardUpdate]"
  using triggerAction_refresh [of "exampleAPI ''clips'' TriggerMedia ModeAll"
          "exampleEvent ''A'' New High False False" "initial 0"]
    triggerAction_refresh [of "exampleAPI ''clips'' TriggerLive ModeActive"
          "exampleEvent ''A'' New High False False" "initial 0"]
  by (simp add: example_defs config_defs suppressed_def
      hasAllowableInteractionStateForAction_def initial_def)

text \<open>
  C5. A call of \<open>handleCameraEvent\<close> returns the world as it was (the triggered cameras, the
  timer map, the running timers, the throttled wrapper, the published state and the commands
  sent: no state change and no side effect) when there is no configuration, or no selected
  camera, or the policy filters on the selected camera and the camera of the event is not
  among the dependent cameras of the selected one. The model is total: nothing is raised.
\<close>

theorem handleCameraEvent_discards:
  assumes "getConfig_view api = None \<or> getView_camera api = None
     \<or> (\<exists>v sel. getConfig_view api = Some v \<and> getView_camera api = Some sel
           \<and> filter_selected_camera (view_triggers v)
           \<and> cameraID ev \<notin> getAllDependentCameras api sel)"
  shows "handleCameraEvent api ev w = w"
  using assms by (auto simp: handleCameraEvent_def Let_def split: option.splits)

theorem handleCameraEvent_discards_witness:
  "cameraID (exampleEvent ''C'' New High True True)
     \<notin> getAllDependentCameras (exampleAPI ''live'' TriggerLive ModeAll) ''A''
   \<and> handleCameraEvent (exampleAPI ''live'' TriggerLive ModeAll)
       (exampleEvent ''C'' New High True True) (initial 0) = initial 0"
proof -
  have "handleCameraEvent (exampleAPI ''live'' TriggerLive ModeAll)
       (exampleEvent ''C'' New High True True) (initial 0) = initial 0"
    by (rule handleCameraEvent_discards) (simp add: example_defs)
  then show ?thesis by (simp add: example_defs)
qed

text \<open>
  C6. When the timer of a camera elapses, the engine sends the change to the default view,
  without a camera, exactly when the untrigger action is \<open>default\<close> and the interaction gate
  permits at that moment. In every case the camera leaves the triggered cameras, its entry
  in the timer map is removed and its timer runs no more, the published state is the state
  of the triggered cameras (written when it differs from the one published before, which
  for a world whose published state was up to date is when the camera was triggered), and
  the refresh is requested last.
\<close>

theorem fireTimer_effects:
  fixes api t c w
  defines "w' \<equiv> fireTimer api t c w"
  defines "navigate \<equiv> configuredUntrigger api = Some UntriggerDefault
                       \<and> hasAllowableInteractionStateForAction api"
  shows "triggeredCameras w' = AList.delete c (triggeredCameras w)
       \<and> c \<notin> getTriggeredCameraIDs w'
       \<and> triggeredCameraTimers w' = AList.delete c (triggeredCameraTimers w)
       \<and> map_of (triggeredCameraTimers w') c = None
       \<and> t \<notin> timerOf ` set (timeouts w')
       \<and> (timersOK w \<and> (t, due, c) \<in> set (timeouts w) \<longrightarrow>
            timeouts w' = filter (\<lambda>e. cameraOf e \<noteq> c) (timeouts w))
       \<and> triggered w' = triggeredState w'
       \<and> commands w' =
           commands w
           @ (if navigate then [SetViewDefault None] else [])
           @ (if triggeredState w' \<noteq> triggered w then [SetState (triggeredState w')] else [])
           @ [CardUpdate]
       \<and> (published w \<longrightarrow>
            (triggeredState w' \<noteq> triggered w \<longleftrightarrow> c \<in> getTriggeredCameraIDs w))"
proof -
  have cams: "triggeredCameras w' = AList.delete c (triggeredCameras w)"
    by (simp add: w'_def fireTimer_def)
  have tm: "triggeredCameraTimers w' = AList.delete c (triggeredCameraTimers w)"
    by (simp add: w'_def fireTimer_def)
  have "c \<notin> getTriggeredCameraIDs w'"
    by (simp add: getTriggeredCameraIDs_eq cams keys_delete)
  moreover have "map_of (triggeredCameraTimers w') c = None"
    by (simp add: tm AList.delete_conv')
  moreover have "t \<notin> timerOf ` set (timeouts w')"
    by (auto simp: w'_def fireTimer_def set_delete timerOf_def split: option.splits)
  moreover have "timersOK w \<and> (t, due, c) \<in> set (timeouts w) \<longrightarrow>
            timeouts w' = filter (\<lambda>e. cameraOf e \<noteq> c) (timeouts w)"
    using timersOK_fireTimer(2) [of w t due c api] by (simp add: w'_def)
  moreover have "triggered w' = triggeredState w'"
    by (simp add: w'_def fireTimer_def)
  moreover have "commands w' =
           commands w
           @ (if navigate then [SetViewDefault None] else [])
           @ (if triggeredState w' \<noteq> triggered w then [SetState (triggeredState w')] else [])
           @ [CardUpdate]"
    unfolding w'_def navigate_def by (rule fireTimer_commands)
  moreover have "published w \<longrightarrow>
            (triggeredState w' \<noteq> triggered w \<longleftrightarrow> c \<in> getTriggeredCameraIDs w)"
    using triggeredState_delete [of w w' c] cams by blast
  ultimately show ?thesis using cams tm by blast
qed

theorem fireTimer_effects_witness:
  "timersOK (elapse 10000 endedWorld)
   \<and> (0, 11000, ''A'') \<in> set (timeouts (elapse 10000 endedWorld))
   \<and> published (elapse 10000 endedWorld)
   \<and> configuredUntrigger examplePolicy = Some UntriggerDefault
   \<and> hasAllowableInteractionStateForAction examplePolicy
   \<and> ''A'' \<in> getTriggeredCameraIDs (elapse 10000 endedWorld)
   \<and> triggeredCameras untriggeredWorld = []
   \<and> triggeredCameraTimers untriggeredWorld = []
   \<and> timeouts untriggeredWorld = []
   \<and> triggered untriggeredWorld = None
   \<and> commands untriggeredWorld =
       commands (elapse 10000 endedWorld) @ [SetViewDefault None, SetState None, CardUpdate]"
proof -
  have h: "timersOK (elapse 10000 endedWorld)"
    "(0, 11000, ''A'') \<in> set (timeouts (elapse 10000 endedWorld))"
    "published (elapse 10000 endedWorld)"
    "configuredUntrigger examplePolicy = Some UntriggerDefault"
    "hasAllowableInteractionStateForAction examplePolicy"
    "''A'' \<in> getTriggeredCameraIDs (elapse 10000 endedWorld)"
    by (simp_all add: endedWorld_eq timersOK_def published_def triggeredState_eq
        getTriggeredCameraIDs_def examplePolicy_def example_defs config_defs
        hasAllowableInteractionStateForAction_def)
  note t = fireTimer_effects [where api = examplePolicy and t = 0 and c = "''A''"
        and w = "elapse 10000 endedWorld" and due = 11000, folded untriggeredWorld_def]
  show ?thesis
    using h t by (simp add: triggeredState_eq cameraOf_def endedWorld_eq)
qed

text \<open>
  C7. A call of \<open>handleCameraEvent\<close> writes the condition state at most once; it does not
  write when the triggered cameras with the camera of the event are the set already
  published; a start event for the camera of the start event just handled writes nothing,
  and neither does a start event for a camera that is triggered already, in any world that
  the engine reaches.
\<close>

theorem handleCameraEvent_publishes_once:
  "(\<exists>ws. stateWrites (handleCameraEvent api ev w) = stateWrites w @ ws \<and> length ws \<le> 1)
   \<and> (triggered w = Some (insert (cameraID ev) (getTriggeredCameraIDs w)) \<longrightarrow>
        stateWrites (handleCameraEvent api ev w) = stateWrites w)
   \<and> (\<not> discarded api ev \<and> type ev \<noteq> End \<and> cameraID ev' = cameraID ev \<longrightarrow>
        stateWrites (handleCameraEvent api' ev' (handleCameraEvent api ev w))
          = stateWrites (handleCameraEvent api ev w))
   \<and> (reachable w \<and> cameraID ev \<in> getTriggeredCameraIDs w \<longrightarrow>
        stateWrites (handleCameraEvent api ev w) = stateWrites w)"
proof -
  have "\<exists>ws. stateWrites (handleCameraEvent api ev w) = stateWrites w @ ws \<and> length ws \<le> 1"
    by (simp add: stateWrites_handleCameraEvent)
  moreover have "triggered w = Some (insert (cameraID ev) (getTriggeredCameraIDs w)) \<longrightarrow>
        stateWrites (handleCameraEvent api ev w) = stateWrites w"
    by (simp add: stateWrites_handleCameraEvent)
  moreover have "\<not> discarded api ev \<and> type ev \<noteq> End \<and> cameraID ev' = cameraID ev \<longrightarrow>
        stateWrites (handleCameraEvent api' ev' (handleCameraEvent api ev w))
          = stateWrites (handleCameraEvent api ev w)"
    using started_handleCameraEvent [of api ev w]
      already_triggered [of "handleCameraEvent api ev w" ev' api'] by auto
  moreover have "reachable w \<and> cameraID ev \<in> getTriggeredCameraIDs w \<longrightarrow>
        stateWrites (handleCameraEvent api ev w) = stateWrites w"
    using reachable_published already_triggered by blast
  ultimately show ?thesis by blast
qed

theorem handleCameraEvent_publishes_once_witness:
  "\<not> discarded examplePolicy exampleStart \<and> type exampleStart \<noteq> End
   \<and> stateWrites triggeredWorld = [SetState (Some {''A''})]
   \<and> stateWrites (handleCameraEvent examplePolicy exampleStart triggeredWorld)
       = [SetState (Some {''A''})]"
proof -
  have h: "\<not> discarded examplePolicy exampleStart \<and> type exampleStart \<noteq> End"
    by (simp add: discarded_def examplePolicy_def exampleStart_def example_defs)
  have w: "stateWrites triggeredWorld = [SetState (Some {''A''})]"
    by (simp add: stateWrites_def triggeredWorld_eq)
  note t = handleCameraEvent_publishes_once [of examplePolicy exampleStart "initial 0"
        exampleStart examplePolicy, folded triggeredWorld_def]
  show ?thesis
    using h w t by simp
qed

text \<open>
  C8. In every world that the engine reaches, each camera has at most one running timer, and
  that timer is the one registered for the camera. An end event that passes the guards
  replaces the timer of its camera: the running timer of the camera, if any, is removed and
  a new timer object, due after \<open>untrigger_seconds\<close>, is appended and registered; the
  triggered cameras, the published state, the commands sent and the throttled wrapper are
  as before.
\<close>

theorem one_timer_per_camera:
  assumes "reachable w"
  shows "(\<forall>c. length (filter (\<lambda>e. cameraOf e = c) (timeouts w)) \<le> 1)
       \<and> (\<forall>e \<in> set (timeouts w). map_of (triggeredCameraTimers w) (cameraOf e) = Some (timerOf e))
       \<and> (\<not> discarded api ev \<and> type ev = End \<longrightarrow>
            timeouts (handleCameraEvent api ev w) =
              filter (\<lambda>e. cameraOf e \<noteq> cameraID ev) (timeouts w)
              @ [(nextTimer w, now w + int (configuredUntriggerSeconds api) * 1000, cameraID ev)]
            \<and> nextTimer w \<notin> timerOf ` set (timeouts w)
            \<and> triggeredCameraTimers (handleCameraEvent api ev w) =
                AList.delete (cameraID ev) (triggeredCameraTimers w) @ [(cameraID ev, nextTimer w)]
            \<and> triggeredCameras (handleCameraEvent api ev w) = triggeredCameras w
            \<and> triggered (handleCameraEvent api ev w) = triggered w
            \<and> commands (handleCameraEvent api ev w) = commands w
            \<and> throttled (handleCameraEvent api ev w) = throttled w)"
proof -
  have ok: "timersOK w" using assms by (rule reachable_timersOK)
  then have d: "distinct (map cameraOf (timeouts w))"
    and m: "triggeredCameraTimers w = map (\<lambda>e. (cameraOf e, timerOf e)) (timeouts w)"
    and b: "list_all (\<lambda>e. timerOf e < nextTimer w) (timeouts w)"
    by (simp_all add: timersOK_def)
  have 1: "\<forall>c. length (filter (\<lambda>e. cameraOf e = c) (timeouts w)) \<le> 1"
    using one_per_camera [OF d] by blast
  have 2: "\<forall>e \<in> set (timeouts w).
             map_of (triggeredCameraTimers w) (cameraOf e) = Some (timerOf e)"
    using registered_of_running [OF d] by (simp add: m)
  have 3: "nextTimer w \<notin> timerOf ` set (timeouts w)"
    using b by (auto simp: list_all_iff)
  have 4: "\<not> discarded api ev \<and> type ev = End \<longrightarrow>
            timeouts (handleCameraEvent api ev w) =
              filter (\<lambda>e. cameraOf e \<noteq> cameraID ev) (timeouts w)
              @ [(nextTimer w, now w + int (configuredUntriggerSeconds api) * 1000, cameraID ev)]"
    using timersOK_startUntriggerTimer(2) [OF ok] by (simp add: handleCameraEvent_cases)
  have 5: "\<not> discarded api ev \<and> type ev = End \<longrightarrow>
            triggeredCameraTimers (handleCameraEvent api ev w) =
                AList.delete (cameraID ev) (triggeredCameraTimers w) @ [(cameraID ev, nextTimer w)]
            \<and> triggeredCameras (handleCameraEvent api ev w) = triggeredCameras w
            \<and> triggered (handleCameraEvent api ev w) = triggered w
            \<and> commands (handleCameraEvent api ev w) = commands w
            \<and> throttled (handleCameraEvent api ev w) = throttled w"
    by (simp add: handleCameraEvent_cases)
  show ?thesis using 1 2 3 4 5 by blast
qed

theorem one_timer_per_camera_witness:
  "reachable endedWorld
   \<and> \<not> discarded examplePolicy exampleEnd \<and> type exampleEnd = End
   \<and> timeouts endedWorld = [(0, 11000, ''A'')]
   \<and> timeouts (handleCameraEvent examplePolicy exampleEnd endedWorld) = [(1, 11000, ''A'')]
   \<and> triggeredCameraTimers (handleCameraEvent examplePolicy exampleEnd endedWorld) = [(''A'', 1)]
   \<and> triggeredCameras (handleCameraEvent examplePolicy exampleEnd endedWorld) = [(''A'', 0)]
   \<and> commands (handleCameraEvent examplePolicy exampleEnd endedWorld) = commands endedWorld"
proof -
  have h: "\<not> discarded examplePolicy exampleEnd \<and> type exampleEnd = End"
    by (simp add: discarded_def examplePolicy_def exampleEnd_def example_defs)
  have s: "configuredUntriggerSeconds examplePolicy = 10" "cameraID exampleEnd = ''A''"
    by (simp_all add: examplePolicy_def exampleEnd_def example_defs config_defs)
  show ?thesis
    using h reachable_endedWorld
      one_timer_per_camera [OF reachable_endedWorld, of examplePolicy exampleEnd]
    by (simp add: s cameraOf_def endedWorld_eq)
qed

text \<open>
  C9. \<open>getMostRecentlyTriggeredCameraID\<close> is a function of the world alone and returns no new
  world. It returns null exactly when no camera is triggered; otherwise the camera it
  returns has a timestamp that no entry exceeds, and among the entries with that timestamp
  it is the first in the order of the map.
\<close>

theorem getMostRecentlyTriggeredCameraID_latest:
  "(getMostRecentlyTriggeredCameraID w = None \<longleftrightarrow> triggeredCameras w = [])
   \<and> (\<forall>c. getMostRecentlyTriggeredCameraID w = Some c \<longrightarrow>
         (\<exists>t. (c, t) \<in> set (triggeredCameras w)
              \<and> (\<forall>e \<in> set (triggeredCameras w). snd e \<le> t)
              \<and> (c, t) = hd (filter (\<lambda>e. snd e = t) (triggeredCameras w))))"
proof (cases "triggeredCameras w = []")
  case True
  then show ?thesis
    by (simp add: getMostRecentlyTriggeredCameraID_def orderBy_desc_def Let_def)
next
  case False
  let ?h = "hd (sort_key (\<lambda>x. - snd x) (triggeredCameras w))"
  obtain c0 t0 where h: "?h = (c0, t0)" by (metis surj_pair)
  have r: "getMostRecentlyTriggeredCameraID w = Some c0"
    using False
    by (simp add: getMostRecentlyTriggeredCameraID_def orderBy_desc_def Let_def
        sort_key_Nil_iff h)
  have 1: "(c0, t0) \<in> set (triggeredCameras w)"
    using hd_sort_key(1) [OF False, of "\<lambda>x. - snd x"] by (simp add: h)
  have 2: "\<forall>e \<in> set (triggeredCameras w). snd e \<le> t0"
    using hd_sort_key(2) [OF False, of "\<lambda>x. - snd x"] by (simp add: h)
  have 3: "(c0, t0) = hd (filter (\<lambda>e. snd e = t0) (triggeredCameras w))"
    using hd_sort_key(3) [OF False, of "\<lambda>x. - snd x"] by (simp add: h)
  have "\<exists>t. (c0, t) \<in> set (triggeredCameras w)
              \<and> (\<forall>e \<in> set (triggeredCameras w). snd e \<le> t)
              \<and> (c0, t) = hd (filter (\<lambda>e. snd e = t) (triggeredCameras w))"
    using 1 2 3 by blast
  then show ?thesis
    using False by (simp add: r)
qed

theorem getMostRecentlyTriggeredCameraID_latest_witness:
  "getMostRecentlyTriggeredCameraID exampleCameras = Some ''B''
   \<and> (\<exists>t. (''B'', t) \<in> set (triggeredCameras exampleCameras)
          \<and> list_all (\<lambda>e. snd e \<le> t) (triggeredCameras exampleCameras)
          \<and> (''B'', t) = hd (filter (\<lambda>e. snd e = t) (triggeredCameras exampleCameras)))
   \<and> getMostRecentlyTriggeredCameraID (initial 0) = None"
proof -
  have r: "getMostRecentlyTriggeredCameraID exampleCameras = Some ''B''"
    by (simp add: getMostRecentlyTriggeredCameraID_def orderBy_desc_def exampleCameras_def
        initial_def)
  have n: "getMostRecentlyTriggeredCameraID (initial 0) = None"
    using getMostRecentlyTriggeredCameraID_latest [of "initial 0"] by (simp add: initial_def)
  show ?thesis
    using r n getMostRecentlyTriggeredCameraID_latest [of exampleCameras]
    by (simp add: list_all_iff)
qed

text \<open>
  C10. In every world that the engine reaches, no write of the condition state has carried
  the empty set, the published state is not the empty set, and when no camera is triggered
  the published state is the absent value.
\<close>

theorem never_publishes_empty_set:
  assumes "reachable w"
  shows "SetState (Some {}) \<notin> set (commands w)
       \<and> triggered w \<noteq> Some {}
       \<and> (\<not> isTriggered w \<longrightarrow> triggered w = None)"
proof -
  have "SetState (Some {}) \<notin> set (commands w)"
    using reachable_no_empty_write [OF assms] by (simp add: stateWrites_def)
  moreover have "triggered w = triggeredState w"
    using reachable_published [OF assms] by (simp add: published_def)
  ultimately show ?thesis
    by (simp add: triggeredState_eq isTriggered_def)
qed

theorem never_publishes_empty_set_witness:
  "reachable untriggeredWorld \<and> \<not> isTriggered untriggeredWorld
   \<and> triggered untriggeredWorld = None
   \<and> SetState (Some {}) \<notin> set (commands untriggeredWorld)"
proof -
  have "\<not> isTriggered untriggeredWorld"
    by (simp add: isTriggered_def untriggeredWorld_eq)
  then show ?thesis
    using reachable_untriggeredWorld never_publishes_empty_set [OF reachable_untriggeredWorld]
    by simp
qed

end
